theory Spec2Isabelle
  imports Complex_Main
begin

section \<open>Retry driver (services/retry.ts)\<close>

text \<open>
  \<open>maxAttempts\<close> and the loop counter are integers. The delays and the growth factor
  are rationals and the model multiplies them exactly, where the code multiplies IEEE
  doubles. The two agree whenever the operands and the product are integers of magnitude
  at most \<open>2^53\<close>, which a double holds exactly; what is proved about the values of the
  delays is stated for such configurations only. The number of calls and the way the
  promise settles do not depend on the values of the delays.
\<close>

record RetryOptions =
  maxAttempts :: int
  initialDelay :: rat
  maxDelay :: rat
  factor :: rat

text \<open>An \<open>Error\<close> object is its message. A rejection carries what was thrown:
  \<open>Some e\<close> for an \<open>Error\<close>, \<open>None\<close> for the value \<open>undefined\<close>.\<close>

datatype js_error = Error (message: string)

datatype 'a settled = Resolved 'a | Rejected "js_error option"

text \<open>The observable effects of one run, in the order they happen: an invocation of the
  wrapped function, or a sleep, \<open>setTimeout\<close> called with the given delay in
  milliseconds and awaited.\<close>

datatype effect = Invoke | Sleep rat

text \<open>A template literal prints an integer in decimal (as JavaScript does for integers
  below \<open>10^21\<close>).\<close>

definition digit_char :: "nat \<Rightarrow> char" where
  "digit_char n = ''0123456789'' ! n"

function show_nat :: "nat \<Rightarrow> string" where
  "show_nat n = (if n < 10 then [digit_char n] else show_nat (n div 10) @ [digit_char (n mod 10)])"
  by pat_completeness auto
termination
  by (relation "measure id") auto

definition show_int :: "int \<Rightarrow> string" where
  "show_int i = (if i < 0 then CHR ''-'' # show_nat (nat (- i)) else show_nat (nat i))"

text \<open>
  The wrapped function \<open>fn\<close> is a promise-returning thunk acting on a world state
  \<open>'s\<close>: \<open>Inl e\<close> is a rejection with the \<open>Error\<close> \<open>e\<close> (the source casts the caught
  value with \<open>error as Error\<close>), \<open>Inr v\<close> a fulfilment with \<open>v\<close>.

  \<open>retry_loop\<close> is the \<open>for\<close> loop of \<open>retryWithBackoff\<close>, entered with the current
  values of \<open>attempt\<close>, \<open>delay\<close> and \<open>lastError\<close>; it returns the trace of effects, the
  way the promise settles, and the final world state.
\<close>

function retry_loop ::
  "('s \<Rightarrow> (js_error + 'a) \<times> 's) \<Rightarrow> RetryOptions \<Rightarrow> int \<Rightarrow> rat \<Rightarrow> js_error option \<Rightarrow> 's
    \<Rightarrow> effect list \<times> 'a settled \<times> 's" where
  "retry_loop fn options attempt delay lastError s =
     (if attempt \<le> maxAttempts options then
        (case fn s of
           (Inr v, s') \<Rightarrow> ([Invoke], Resolved v, s')
         | (Inl error, s') \<Rightarrow>
             if attempt = maxAttempts options then
               ([Invoke],
                Rejected (Some (Error (''Max retry attempts ('' @ show_int (maxAttempts options)
                   @ '') reached. Last error: '' @ message error))),
                s')
             else
               (case retry_loop fn options (attempt + 1)
                       (min (delay * factor options) (maxDelay options)) (Some error) s' of
                  (tr, r, s'') \<Rightarrow> (Invoke # Sleep delay # tr, r, s'')))
      else ([], Rejected lastError, s))"
  by pat_completeness auto
termination
  by (relation "measure (\<lambda>(fn, options, attempt, delay, lastError, s).
        nat (maxAttempts options + 1 - attempt))") auto

definition retryWithBackoff ::
  "('s \<Rightarrow> (js_error + 'a) \<times> 's) \<Rightarrow> RetryOptions \<Rightarrow> 's \<Rightarrow> effect list \<times> 'a settled \<times> 's" where
  "retryWithBackoff fn options s = retry_loop fn options 1 (initialDelay options) None s"

text \<open>Projections of a run, and what a trace contains.\<close>

definition run_trace :: "effect list \<times> 'r \<times> 's \<Rightarrow> effect list" where
  "run_trace run = fst run"

definition run_result :: "effect list \<times> 'r \<times> 's \<Rightarrow> 'r" where
  "run_result run = fst (snd run)"

definition run_state :: "effect list \<times> 'r \<times> 's \<Rightarrow> 's" where
  "run_state run = snd (snd run)"

definition invocations :: "effect list \<Rightarrow> nat" where
  "invocations tr = length (filter (\<lambda>e. e = Invoke) tr)"


text \<open>The world state after \<open>k\<close> successive invocations of \<open>fn\<close>, and the outcome of
  invocation number \<open>k + 1\<close>.\<close>

fun state_after :: "('s \<Rightarrow> 'r \<times> 's) \<Rightarrow> nat \<Rightarrow> 's \<Rightarrow> 's" where
  "state_after fn 0 s = s"
| "state_after fn (Suc k) s = state_after fn k (snd (fn s))"

definition nth_outcome :: "('s \<Rightarrow> 'r \<times> 's) \<Rightarrow> nat \<Rightarrow> 's \<Rightarrow> 'r" where
  "nth_outcome fn k s = fst (fn (state_after fn k s))"


definition defaultRetryOptions :: RetryOptions where
  "defaultRetryOptions = \<lparr>maxAttempts = 3, initialDelay = 100, maxDelay = 5000, factor = 2\<rparr>"

section \<open>Provider contract (providers/base.ts)\<close>

datatype Role = System | User | Assistant

record Message =
  role :: Role
  content :: string

record ChatRequest =
  model :: string
  messages :: "Message list"
  temperature :: "rat option"
  maxTokens :: "int option"
  timeout :: "int option"

record Usage =
  promptTokens :: int
  completionTokens :: int
  totalTokens :: int

datatype FinishReason = Stop | Length | ContentFilter

text \<open>The fields \<open>id\<close>, \<open>content\<close> and \<open>model\<close> of a \<open>ChatResponse\<close> carry the prefix
  \<open>response_\<close> to keep them apart from the request's fields and from HOL's \<open>id\<close>.\<close>

record ChatResponse =
  response_id :: string
  response_content :: string
  response_model :: string
  finishReason :: FinishReason
  usage :: Usage

text \<open>\<open>ProviderResult\<close> is the tagged union on \<open>success\<close>: \<open>Success data\<close> or
  \<open>Failure error retryable\<close>.\<close>

datatype ProviderResult = Success ChatResponse | Failure js_error bool

text \<open>A provider's \<open>chat\<close> never rejects: it returns a \<open>ProviderResult\<close> and the new world
  state.\<close>

record 's LLMProvider =
  name :: string
  chat :: "ChatRequest \<Rightarrow> 's \<Rightarrow> ProviderResult \<times> 's"

section \<open>Anthropic adapter (providers/anthropic.ts, class AnthropicProvider)\<close>

text \<open>The argument object of \<open>client.messages.create\<close>; its keys \<open>model\<close>, \<open>messages\<close> and
  \<open>temperature\<close> are prefixed \<open>create_\<close> here.\<close>

record MessageCreateParams =
  create_model :: string
  system :: "string option"
  create_messages :: "Message list"
  max_tokens :: int
  create_temperature :: "rat option"

datatype ContentBlock = TextBlock string | OtherBlock

record AnthropicMessage =
  message_id :: string
  message_content :: "ContentBlock list"
  message_model :: string
  stop_reason :: string
  input_tokens :: int
  output_tokens :: int

text \<open>What the SDK call can throw: an \<open>Anthropic.APIError\<close> with its optional HTTP status,
  or anything else; both with a message.\<close>

datatype ClientError = APIError "int option" string | OtherError string

fun error_of :: "ClientError \<Rightarrow> js_error" where
  "error_of (APIError status m) = Error m"
| "error_of (OtherError m) = Error m"

text \<open>\<open>error.status ? error.status >= 500 || error.status === 429 : true\<close>: a status that
  is absent or \<open>0\<close> is falsy.\<close>

fun isRetryable :: "ClientError \<Rightarrow> bool" where
  "isRetryable (APIError None m) = True"
| "isRetryable (APIError (Some status) m) =
     (if status \<noteq> 0 then status \<ge> 500 \<or> status = 429 else True)"
| "isRetryable (OtherError m) = True"

definition anthropic_request :: "ChatRequest \<Rightarrow> MessageCreateParams" where
  "anthropic_request request =
     (let systemMsg = find (\<lambda>m. role m = System) (messages request);
          msgs = filter (\<lambda>m. role m \<noteq> System) (messages request)
      in \<lparr>create_model = model request,
          system = map_option content systemMsg,
          create_messages = msgs,
          max_tokens = (case maxTokens request of None \<Rightarrow> 4096 | Some n \<Rightarrow> n),
          create_temperature = temperature request\<rparr>)"

definition anthropic_response :: "AnthropicMessage \<Rightarrow> ChatResponse" where
  "anthropic_response response =
     \<lparr>response_id = message_id response,
      response_content =
        (case message_content response of TextBlock text # rest \<Rightarrow> text | _ \<Rightarrow> []),
      response_model = message_model response,
      finishReason = (if stop_reason response = ''max_tokens'' then Length else Stop),
      usage = \<lparr>promptTokens = input_tokens response,
               completionTokens = output_tokens response,
               totalTokens = input_tokens response + output_tokens response\<rparr>\<rparr>"

text \<open>\<open>AnthropicProvider.chat\<close>, with the SDK client as a parameter.\<close>

definition AnthropicProvider_chat ::
  "(MessageCreateParams \<Rightarrow> 's \<Rightarrow> (ClientError + AnthropicMessage) \<times> 's)
    \<Rightarrow> ChatRequest \<Rightarrow> 's \<Rightarrow> ProviderResult \<times> 's" where
  "AnthropicProvider_chat client request s =
     (case client (anthropic_request request) s of
        (Inr response, s') \<Rightarrow> (Success (anthropic_response response), s')
      | (Inl error, s') \<Rightarrow> (Failure (error_of error) (isRetryable error), s'))"

section \<open>Orchestrator (services/llm-service.ts, class LLMService)\<close>

text \<open>A circuit breaker is used through \<open>fire\<close> only: a promise-returning call that may
  resolve with a \<open>ProviderResult\<close> or reject. The orchestrator is modelled for any such
  \<open>fire\<close>.\<close>

type_synonym 's CircuitBreaker = "ChatRequest \<Rightarrow> 's \<Rightarrow> (js_error + ProviderResult) \<times> 's"

record 's LLMService =
  providers :: "string \<rightharpoonup> 's LLMProvider"
  defaultProvider :: string
  circuitBreakers :: "string \<rightharpoonup> 's CircuitBreaker"

text \<open>The constructor; \<open>mkBreaker\<close> stands for the breaker built for the provider's
  \<open>chat\<close>. A \<open>Map\<close> keeps the last value set for a key.\<close>

definition LLMService_new ::
  "'s LLMProvider list \<Rightarrow> string \<Rightarrow> ('s LLMProvider \<Rightarrow> 's CircuitBreaker) \<Rightarrow> 's LLMService" where
  "LLMService_new ps dflt mkBreaker =
     \<lparr>providers = map_of (rev (map (\<lambda>p. (name p, p)) ps)),
      defaultProvider = dflt,
      circuitBreakers = map_of (rev (map (\<lambda>p. (name p, mkBreaker p)) ps))\<rparr>"

definition LLMService_chat ::
  "'s LLMService \<Rightarrow> ChatRequest \<Rightarrow> string option \<Rightarrow> 's
    \<Rightarrow> effect list \<times> ChatResponse settled \<times> 's" where
  "LLMService_chat svc request providerName s =
     (let wanted = (case providerName of Some n \<Rightarrow> n | None \<Rightarrow> defaultProvider svc) in
      case providers svc wanted of
        None \<Rightarrow> ([], Rejected (Some (Error (''Provider not found: '' @ wanted))), s)
      | Some provider \<Rightarrow>
          (let fn = (case circuitBreakers svc (name provider) of
                       Some breaker \<Rightarrow> breaker request
                     | None \<Rightarrow>
                         (\<lambda>s. (Inl (Error
                            ''Cannot read properties of undefined (reading fire)''), s)))
           in case retryWithBackoff fn
                     \<lparr>maxAttempts = 3, initialDelay = 100, maxDelay = 5000, factor = 2\<rparr> s of
                (tr, Rejected e, s') \<Rightarrow> (tr, Rejected e, s')
              | (tr, Resolved (Failure error retryable), s') \<Rightarrow> (tr, Rejected (Some error), s')
              | (tr, Resolved (Success data), s') \<Rightarrow> (tr, Resolved data, s')))"

section \<open>Rate limiter (middleware/rate-limit.ts, class RateLimiter)\<close>

text \<open>Counts, limits and times in milliseconds are integers.\<close>

record RateLimitEntry =
  count :: int
  resetTime :: int

record RateLimiter =
  requests :: "string \<rightharpoonup> RateLimitEntry"
  maxRequests :: int
  windowMs :: int

text \<open>The object \<open>check\<close> returns; its field \<open>resetTime\<close> is read as
  \<open>CheckResult.resetTime\<close>, the entry's as \<open>RateLimitEntry.resetTime\<close>.\<close>

record CheckResult =
  allowed :: bool
  remaining :: int
  resetTime :: int

definition RateLimiter_new :: "int \<Rightarrow> int \<Rightarrow> RateLimiter" where
  "RateLimiter_new maxReq window = \<lparr>requests = Map.empty, maxRequests = maxReq, windowMs = window\<rparr>"

text \<open>\<open>check(key)\<close> with the value of \<open>Date.now()\<close> as the argument \<open>now\<close>.\<close>

definition RateLimiter_check :: "RateLimiter \<Rightarrow> string \<Rightarrow> int \<Rightarrow> CheckResult \<times> RateLimiter" where
  "RateLimiter_check limiter key now =
     (let fresh =
        (\<lparr>allowed = True, remaining = maxRequests limiter - 1, resetTime = now + windowMs limiter\<rparr>,
         limiter\<lparr>requests := (requests limiter)(key \<mapsto>
            \<lparr>count = 1, RateLimitEntry.resetTime = now + windowMs limiter\<rparr>)\<rparr>)
      in case requests limiter key of
        None \<Rightarrow> fresh
      | Some entry \<Rightarrow>
          if now > RateLimitEntry.resetTime entry then fresh
          else if count entry \<ge> maxRequests limiter then
            (\<lparr>allowed = False, remaining = 0, resetTime = RateLimitEntry.resetTime entry\<rparr>, limiter)
          else
            (\<lparr>allowed = True, remaining = maxRequests limiter - (count entry + 1),
              resetTime = RateLimitEntry.resetTime entry\<rparr>,
             limiter\<lparr>requests := (requests limiter)(key \<mapsto> entry\<lparr>count := count entry + 1\<rparr>)\<rparr>))"

text \<open>A sequence of checks, each with its key and its clock reading.\<close>

fun RateLimiter_checks ::
  "RateLimiter \<Rightarrow> (string \<times> int) list \<Rightarrow> CheckResult list \<times> RateLimiter" where
  "RateLimiter_checks limiter [] = ([], limiter)"
| "RateLimiter_checks limiter ((key, now) # rest) =
     (case RateLimiter_check limiter key now of
        (r, limiter') \<Rightarrow> (case RateLimiter_checks limiter' rest of (rs, limiter'') \<Rightarrow> (r # rs, limiter'')))"

section \<open>Idempotency cache (services/idempotency.ts, class IdempotencyCache)\<close>

record 'v CacheEntry =
  response :: 'v
  timestamp :: int

record 'v IdempotencyCache =
  cache :: "string \<rightharpoonup> 'v CacheEntry"
  ttl :: int

definition IdempotencyCache_new :: "int \<Rightarrow> 'v IdempotencyCache" where
  "IdempotencyCache_new ttlMs = \<lparr>cache = Map.empty, ttl = ttlMs\<rparr>"

text \<open>\<open>get\<close> returns \<open>None\<close> for \<open>undefined\<close>; \<open>now\<close> is the value of \<open>Date.now()\<close>.\<close>

definition IdempotencyCache_get ::
  "'v IdempotencyCache \<Rightarrow> string \<Rightarrow> int \<Rightarrow> 'v option \<times> 'v IdempotencyCache" where
  "IdempotencyCache_get c key now =
     (case cache c key of
        None \<Rightarrow> (None, c)
      | Some entry \<Rightarrow>
          if now - timestamp entry > ttl c then (None, c\<lparr>cache := (cache c)(key := None)\<rparr>)
          else (Some (response entry), c))"

definition IdempotencyCache_set ::
  "'v IdempotencyCache \<Rightarrow> string \<Rightarrow> 'v \<Rightarrow> int \<Rightarrow> 'v IdempotencyCache" where
  "IdempotencyCache_set c key resp now =
     c\<lparr>cache := (cache c)(key \<mapsto> \<lparr>response = resp, timestamp = now\<rparr>)\<rparr>"

definition IdempotencyCache_has ::
  "'v IdempotencyCache \<Rightarrow> string \<Rightarrow> int \<Rightarrow> bool \<times> 'v IdempotencyCache" where
  "IdempotencyCache_has c key now =
     (case cache c key of
        None \<Rightarrow> (False, c)
      | Some entry \<Rightarrow>
          if now - timestamp entry > ttl c then (False, c\<lparr>cache := (cache c)(key := None)\<rparr>)
          else (True, c))"

section \<open>Request coalescer (services/request-coalescing.ts, class RequestCoalescer)\<close>

text \<open>
  JavaScript runs the body of \<open>execute\<close> without interruption: it contains no
  \<open>await\<close>, so the lookup, the call \<open>fn()\<close>, the registration of the \<open>finally\<close>
  callback and \<open>pending.set\<close> happen in one step of the event loop. The settling of a
  promise, with its \<open>finally\<close> callback, is another step. A run of the coalescer is
  therefore a sequence of such steps over a world made of the coalescer's own fields and
  the table of the promises that \<open>fn()\<close> has returned.

  A promise is named by its index in that table. Each call of \<open>fn\<close> adds one entry, which
  records the \<open>keyStr\<close> captured by its \<open>finally\<close> callback and, once settled, the way it
  settled. \<open>fn\<close> itself is assumed not to touch the coalescer.
\<close>

datatype 'k TKey = StringKey string | ObjectKey 'k

text \<open>\<open>serializeKey\<close>, with \<open>JSON.stringify\<close> as the parameter \<open>stringify\<close>.\<close>

fun serializeKey :: "('k \<Rightarrow> string) \<Rightarrow> 'k TKey \<Rightarrow> string" where
  "serializeKey stringify (StringKey key) = key"
| "serializeKey stringify (ObjectKey key) = stringify key"

record PendingRequest =
  promise :: nat
  timestamp :: int

record RequestCoalescer =
  pending :: "string \<rightharpoonup> PendingRequest"
  windowMs :: int

record 'r PromiseEntry =
  keyStr :: string
  outcome :: "'r settled option"

record 'r World =
  coalescer :: RequestCoalescer
  promises :: "'r PromiseEntry list"

definition RequestCoalescer_new :: "int \<Rightarrow> 'r World" where
  "RequestCoalescer_new window =
     \<lparr>coalescer = \<lparr>pending = Map.empty, windowMs = window\<rparr>, promises = []\<rparr>"

text \<open>
  \<open>execute(key, fn)\<close>; \<open>now1\<close> and \<open>now2\<close> are the two readings of \<open>Date.now()\<close>, the
  first in the freshness test and the second in the new entry. The result is the promise
  the caller is given: an existing one, or the one a new call of \<open>fn\<close> returns.
\<close>

definition RequestCoalescer_execute ::
  "('k \<Rightarrow> string) \<Rightarrow> 'r World \<Rightarrow> 'k TKey \<Rightarrow> int \<Rightarrow> int \<Rightarrow> nat \<times> 'r World" where
  "RequestCoalescer_execute stringify w key now1 now2 =
     (let ks = serializeKey stringify key;
          this = coalescer w;
          create =
            (let p = length (promises w) in
             (p, w\<lparr>promises := promises w @ [\<lparr>keyStr = ks, outcome = None\<rparr>],
                    coalescer := this\<lparr>pending := (pending this)(ks \<mapsto>
                       \<lparr>promise = p, PendingRequest.timestamp = now2\<rparr>)\<rparr>\<rparr>))
      in case pending this ks of
        None \<Rightarrow> create
      | Some existing \<Rightarrow>
          if now1 - PendingRequest.timestamp existing < RequestCoalescer.windowMs this
          then (promise existing, w)
          else create)"

text \<open>Promise \<open>p\<close> settles as \<open>out\<close>: its \<open>finally\<close> callback runs
  \<open>this.pending.delete(keyStr)\<close>. A promise settles once.\<close>

definition settle :: "'r World \<Rightarrow> nat \<Rightarrow> 'r settled \<Rightarrow> 'r World" where
  "settle w p out =
     (if p < length (promises w) \<and> outcome (promises w ! p) = None then
        w\<lparr>promises := (promises w)[p := (promises w ! p)\<lparr>outcome := Some out\<rparr>],
          coalescer := (coalescer w)\<lparr>pending :=
             (pending (coalescer w))(keyStr (promises w ! p) := None)\<rparr>\<rparr>
      else w)"

datatype ('k, 'r) Event = Execute "'k TKey" int int | Settle nat "'r settled"

text \<open>A run: for each call of \<open>execute\<close>, in order, its serialized key and the promise
  handed to the caller; and the final world.\<close>

fun run ::
  "('k \<Rightarrow> string) \<Rightarrow> 'r World \<Rightarrow> ('k, 'r) Event list \<Rightarrow> (string \<times> nat) list \<times> 'r World" where
  "run stringify w [] = ([], w)"
| "run stringify w (Execute key now1 now2 # evs) =
     (case RequestCoalescer_execute stringify w key now1 now2 of
        (p, w') \<Rightarrow>
          (case run stringify w' evs of
             (ps, w'') \<Rightarrow> ((serializeKey stringify key, p) # ps, w'')))"
| "run stringify w (Settle p out # evs) = run stringify (settle w p out) evs"

text \<open>How often \<open>fn\<close> has been called for a serialized key: once per promise created for
  it. What a caller holding promise \<open>p\<close> observes.\<close>

definition fn_calls :: "'r World \<Rightarrow> string \<Rightarrow> nat" where
  "fn_calls w ks = length (filter (\<lambda>e. keyStr e = ks) (promises w))"

definition observed :: "'r World \<Rightarrow> nat \<Rightarrow> 'r settled option" where
  "observed w p = (if p < length (promises w) then outcome (promises w ! p) else None)"

definition pendingCount :: "'r World \<Rightarrow> nat" where
  "pendingCount w = card (dom (pending (coalescer w)))"

text \<open>
  A burst on the serialized key \<open>ks\<close> around the promise \<open>p0\<close> entered at \<open>t0\<close>: every
  further call of \<open>execute\<close> for \<open>ks\<close> reads the clock less than \<open>window\<close> after \<open>t0\<close>,
  and \<open>p0\<close> does not settle (other promises may). Calls for other keys are free.
\<close>

definition in_burst :: "('k \<Rightarrow> string) \<Rightarrow> string \<Rightarrow> int \<Rightarrow> int \<Rightarrow> nat \<Rightarrow> ('k, 'r) Event \<Rightarrow> bool" where
  "in_burst stringify ks t0 window p0 ev =
     (case ev of
        Execute key now1 now2 \<Rightarrow> serializeKey stringify key = ks \<longrightarrow> now1 - t0 < window
      | Settle p out \<Rightarrow> p \<noteq> p0)"

text \<open>The entry of \<open>ks\<close> is the one of promise \<open>p0\<close>, which is in flight and is the only
  promise of \<open>ks\<close> in flight.\<close>

definition shared :: "'r World \<Rightarrow> string \<Rightarrow> nat \<Rightarrow> int \<Rightarrow> bool" where
  "shared w ks p0 t0 =
     (pending (coalescer w) ks = Some \<lparr>promise = p0, PendingRequest.timestamp = t0\<rparr> \<and>
      p0 < length (promises w) \<and>
      keyStr (promises w ! p0) = ks \<and> outcome (promises w ! p0) = None \<and>
      (\<forall>p<length (promises w). p \<noteq> p0 \<and> keyStr (promises w ! p) = ks
          \<longrightarrow> outcome (promises w ! p) \<noteq> None))"

section \<open>Circuit breaker (services/circuit-breaker.ts)\<close>

record CircuitBreakerOptions =
  timeout :: int
  errorThresholdPercentage :: int
  resetTimeout :: int

text \<open>
  \<open>createCircuitBreaker\<close> calls \<open>new CircuitBreaker(fn, {\<dots>})\<close>: its arguments are the
  wrapped function and one options object, which holds the three options and, under the
  key \<open>fallback\<close>, a function returning a fixed failed \<open>ProviderResult\<close>. The
  \<open>CircuitBreaker\<close> class is the opossum library's and is not part of the sources, so
  what \<open>fire\<close> does with these arguments is not modelled. The repository's unit test of
  this function expects \<open>fire\<close> on an open breaker to reject with a message containing
  \<open>Breaker is open\<close>, not to resolve with the fallback.
\<close>

record ConstructorOptions = CircuitBreakerOptions +
  fallback :: ProviderResult

definition createCircuitBreaker :: "'f \<Rightarrow> CircuitBreakerOptions \<Rightarrow> 'f \<times> ConstructorOptions" where
  "createCircuitBreaker fn opts =
     (fn,
      \<lparr>timeout = CircuitBreakerOptions.timeout opts,
       errorThresholdPercentage = errorThresholdPercentage opts,
       resetTimeout = resetTimeout opts,
       fallback = Failure (Error ''Circuit breaker is OPEN'') False\<rparr>)"

section \<open>Concrete inputs\<close>

text \<open>A wrapped function that rejects on every call; its world state counts the calls
  and the message carries the number of the call.\<close>

definition failing_fn :: "nat \<Rightarrow> (js_error + unit) \<times> nat" where
  "failing_fn n = (Inl (Error (''fail #'' @ show_nat (Suc n))), Suc n)"

definition capped_options :: RetryOptions where
  "capped_options = \<lparr>maxAttempts = 4, initialDelay = 100, maxDelay = 250, factor = 2\<rparr>"


text \<open>A request with two system messages, and one with none and no \<open>maxTokens\<close>.\<close>

definition two_system_request :: ChatRequest where
  "two_system_request =
     \<lparr>model = ''claude-3'',
      messages = [\<lparr>role = System, content = ''Be brief.''\<rparr>,
                  \<lparr>role = User, content = ''Hello''\<rparr>,
                  \<lparr>role = System, content = ''Answer in French.''\<rparr>,
                  \<lparr>role = Assistant, content = ''Bonjour''\<rparr>],
      temperature = None, maxTokens = None, timeout = None\<rparr>"

definition plain_request :: ChatRequest where
  "plain_request =
     \<lparr>model = ''gpt-4'', messages = [\<lparr>role = User, content = ''test''\<rparr>],
      temperature = None, maxTokens = Some 16, timeout = None\<rparr>"

text \<open>A provider that always answers with a retryable failure, behind a breaker that
  passes every call through; the world state counts the provider's calls.\<close>

definition unavailable_provider :: "nat LLMProvider" where
  "unavailable_provider =
     \<lparr>name = ''openai'',
      chat = (\<lambda>request n. (Failure (Error ''503 Service Unavailable'') True, Suc n))\<rparr>"

definition passing_breaker :: "nat LLMProvider \<Rightarrow> nat CircuitBreaker" where
  "passing_breaker p = (\<lambda>request n. case chat p request n of (r, n') \<Rightarrow> (Inr r, n'))"

definition unavailable_service :: "nat LLMService" where
  "unavailable_service = LLMService_new [unavailable_provider] ''openai'' passing_breaker"

text \<open>A run of the coalescer with window 100 ms on the key \<open>k\<close>: a call at 0 ms, calls at
  150, 160 and 180 ms, and the promise of the first call settling between the last two.\<close>

definition stale_settle_events :: "(string, string) Event list" where
  "stale_settle_events =
     [Execute (StringKey ''k'') 0 0,
      Execute (StringKey ''k'') 150 150,
      Execute (StringKey ''k'') 160 160,
      Settle 0 (Resolved ''first''),
      Execute (StringKey ''k'') 180 180]"

text \<open>The bound on the stored count that \<open>check\<close> maintains.\<close>

definition count_bounded :: "RateLimiter \<Rightarrow> bool" where
  "count_bounded limiter =
     (\<forall>key e. requests limiter key = Some e \<longrightarrow> count e \<le> max (maxRequests limiter) 1)"

section \<open>Retry driver: proofs\<close>

declare retry_loop.simps [simp del]

lemma retry_loop_exit:
  "\<not> attempt \<le> maxAttempts options \<Longrightarrow>
   retry_loop fn options attempt delay lastError s = ([], Rejected lastError, s)"
  by (subst retry_loop.simps) simp

lemma retry_loop_resolve:
  "attempt \<le> maxAttempts options \<Longrightarrow> fn s = (Inr v, s') \<Longrightarrow>
   retry_loop fn options attempt delay lastError s = ([Invoke], Resolved v, s')"
  by (subst retry_loop.simps) simp

lemma retry_loop_last:
  "attempt = maxAttempts options \<Longrightarrow> fn s = (Inl e, s') \<Longrightarrow>
   retry_loop fn options attempt delay lastError s =
     ([Invoke],
      Rejected (Some (Error (''Max retry attempts ('' @ show_int (maxAttempts options)
         @ '') reached. Last error: '' @ message e))), s')"
  by (subst retry_loop.simps) simp

lemma retry_loop_again:
  "attempt < maxAttempts options \<Longrightarrow> fn s = (Inl e, s') \<Longrightarrow>
   retry_loop fn options attempt delay lastError s =
     (Invoke # Sleep delay # run_trace (retry_loop fn options (attempt + 1)
          (min (delay * factor options) (maxDelay options)) (Some e) s'),
      run_result (retry_loop fn options (attempt + 1)
          (min (delay * factor options) (maxDelay options)) (Some e) s'),
      run_state (retry_loop fn options (attempt + 1)
          (min (delay * factor options) (maxDelay options)) (Some e) s'))"
  by (subst retry_loop.simps) (simp add: run_trace_def run_result_def run_state_def split: prod.splits)

lemma nth_outcome_Suc: "nth_outcome fn (Suc k) s = nth_outcome fn k (snd (fn s))"
  by (simp add: nth_outcome_def)

lemma retry_loop_all_fail:
  assumes fails: "\<forall>s. isl (fst (fn s))"
  shows "attempt \<le> maxAttempts options \<Longrightarrow> nat (maxAttempts options - attempt) = k \<Longrightarrow>
    invocations (run_trace (retry_loop fn options attempt delay lastError s)) = Suc k \<and>
    run_result (retry_loop fn options attempt delay lastError s) =
      Rejected (Some (Error (''Max retry attempts ('' @ show_int (maxAttempts options)
         @ '') reached. Last error: '' @ message (projl (nth_outcome fn k s)))))"
proof (induction k arbitrary: attempt delay lastError s)
  case 0
  then have eq: "attempt = maxAttempts options" by simp
  from fails obtain e s' where f: "fn s = (Inl e, s')"
    by (metis isl_def prod.collapse)
  show ?case
    using retry_loop_last [where fn = fn and s = s, OF eq f]
    by (simp add: run_trace_def run_result_def invocations_def nth_outcome_def f)
next
  case (Suc k)
  then have lt: "attempt < maxAttempts options" by simp
  from fails obtain e s' where f: "fn s = (Inl e, s')"
    by (metis isl_def prod.collapse)
  have le': "attempt + 1 \<le> maxAttempts options" using lt by simp
  have k': "nat (maxAttempts options - (attempt + 1)) = k" using Suc.prems by simp
  note ih = Suc.IH [OF le' k', of "min (delay * factor options) (maxDelay options)" "Some e" s']
  show ?case
    using retry_loop_again [where fn = fn and s = s, OF lt f, of delay lastError] ih
    by (simp add: run_trace_def run_result_def invocations_def nth_outcome_Suc f)
qed




lemma state_after_failing_fn: "state_after failing_fn k n = n + k"
  by (induction k arbitrary: n) (simp_all add: failing_fn_def)

lemma nth_outcome_failing_fn:
  "nth_outcome failing_fn k n = Inl (Error (''fail #'' @ show_nat (Suc (n + k))))"
  by (simp add: nth_outcome_def state_after_failing_fn failing_fn_def)

text \<open>
  C3. For every \<open>maxAttempts\<close> \<open>n \<ge> 1\<close>, \<open>retryWithBackoff\<close> applied to a function that
  rejects on every call invokes it exactly \<open>n\<close> times and rejects with an \<open>Error\<close> whose
  message is \<open>Max retry attempts (n) reached. Last error: \<close> followed by the message of
  the error of the last call (call number \<open>n\<close>).
\<close>

theorem retry_exhausts_attempts:
  assumes "1 \<le> maxAttempts options" and "\<forall>s. isl (fst (fn s))"
  shows "invocations (run_trace (retryWithBackoff fn options s)) = nat (maxAttempts options) \<and>
         run_result (retryWithBackoff fn options s) =
           Rejected (Some (Error (''Max retry attempts ('' @ show_int (maxAttempts options)
              @ '') reached. Last error: ''
              @ message (projl (nth_outcome fn (nat (maxAttempts options) - 1) s)))))"
proof -
  have k: "nat (maxAttempts options - 1) = nat (maxAttempts options) - 1" by simp
  have "Suc (nat (maxAttempts options) - 1) = nat (maxAttempts options)"
    using assms(1) by simp
  then show ?thesis
    using retry_loop_all_fail [OF assms(2) assms(1) k, of "initialDelay options" None s]
    by (simp add: retryWithBackoff_def)
qed

theorem retry_exhausts_attempts_witness:
  "invocations (run_trace (retryWithBackoff failing_fn capped_options 0)) = 4 \<and>
   run_result (retryWithBackoff failing_fn capped_options 0) =
     Rejected (Some (Error ''Max retry attempts (4) reached. Last error: fail #4''))"
proof -
  have a: "1 \<le> maxAttempts capped_options" by (simp add: capped_options_def)
  have b: "\<forall>s. isl (fst (failing_fn s))" by (simp add: failing_fn_def)
  show ?thesis
    using retry_exhausts_attempts [OF a b, of 0]
    by (simp add: capped_options_def nth_outcome_failing_fn show_int_def digit_char_def)
qed

text \<open>
  C10. With \<open>maxAttempts < 1\<close> the loop body never runs: the trace is empty (no call of
  \<open>fn\<close>, no sleep), the world is unchanged, and the promise rejects with the
  uninitialised \<open>lastError\<close>, the value \<open>undefined\<close>.
\<close>

theorem retry_never_runs_below_one:
  "maxAttempts options < 1 \<Longrightarrow> retryWithBackoff fn options s = ([], Rejected None, s)"
  by (simp add: retryWithBackoff_def retry_loop_exit)

theorem retry_never_runs_below_one_witness:
  "retryWithBackoff failing_fn \<lparr>maxAttempts = 0, initialDelay = 100, maxDelay = 5000, factor = 2\<rparr> 0
     = ([], Rejected None, 0)"
  using retry_never_runs_below_one [of "\<lparr>maxAttempts = 0, initialDelay = 100, maxDelay = 5000, factor = 2\<rparr>" failing_fn 0]
  by simp






section \<open>Rate limiter: proofs\<close>

lemma check_fresh:
  "requests limiter key = None \<or> (\<exists>e. requests limiter key = Some e \<and> RateLimitEntry.resetTime e < now) \<Longrightarrow>
   RateLimiter_check limiter key now =
     (\<lparr>allowed = True, remaining = maxRequests limiter - 1,
       resetTime = now + RateLimiter.windowMs limiter\<rparr>,
      limiter\<lparr>requests := (requests limiter)(key \<mapsto>
         \<lparr>count = 1, RateLimitEntry.resetTime = now + RateLimiter.windowMs limiter\<rparr>)\<rparr>)"
  by (auto simp: RateLimiter_check_def Let_def split: option.splits)

lemma check_denied:
  "requests limiter key = Some e \<Longrightarrow> now \<le> RateLimitEntry.resetTime e \<Longrightarrow>
   maxRequests limiter \<le> count e \<Longrightarrow>
   RateLimiter_check limiter key now =
     (\<lparr>allowed = False, remaining = 0, resetTime = RateLimitEntry.resetTime e\<rparr>, limiter)"
  by (simp add: RateLimiter_check_def Let_def)

lemma check_counted:
  "requests limiter key = Some e \<Longrightarrow> now \<le> RateLimitEntry.resetTime e \<Longrightarrow>
   count e < maxRequests limiter \<Longrightarrow>
   RateLimiter_check limiter key now =
     (\<lparr>allowed = True, remaining = maxRequests limiter - (count e + 1),
       resetTime = RateLimitEntry.resetTime e\<rparr>,
      limiter\<lparr>requests := (requests limiter)(key \<mapsto> e\<lparr>count := count e + 1\<rparr>)\<rparr>)"
  by (simp add: RateLimiter_check_def Let_def)

lemma check_config:
  "maxRequests (snd (RateLimiter_check limiter key now)) = maxRequests limiter \<and>
   RateLimiter.windowMs (snd (RateLimiter_check limiter key now)) = RateLimiter.windowMs limiter"
  by (simp add: RateLimiter_check_def Let_def split: option.splits)

lemma check_count_bounded:
  "count_bounded limiter \<Longrightarrow> count_bounded (snd (RateLimiter_check limiter key now))"
  unfolding count_bounded_def
  by (auto simp: RateLimiter_check_def Let_def split: option.splits if_splits)

lemma checks_count_bounded:
  "count_bounded limiter \<Longrightarrow> count_bounded (snd (RateLimiter_checks limiter evs))"
proof (induction evs arbitrary: limiter)
  case Nil
  then show ?case by simp
next
  case (Cons ev evs)
  obtain key now where ev: "ev = (key, now)" by (cases ev)
  from check_count_bounded [OF Cons.prems, of key now] Cons.IH
  show ?case by (simp add: ev split: prod.splits) (metis snd_conv)
qed

lemma checks_maxRequests:
  "maxRequests (snd (RateLimiter_checks limiter evs)) = maxRequests limiter"
proof (induction evs arbitrary: limiter)
  case Nil
  then show ?case by simp
next
  case (Cons ev evs)
  obtain key now where ev: "ev = (key, now)" by (cases ev)
  show ?case using Cons.IH check_config [of limiter key now]
    by (simp add: ev split: prod.splits) (metis snd_conv)
qed

text \<open>
  C9. In every state reached from a new limiter by any sequence of checks, the stored
  count of every key is at most \<open>max maxRequests 1\<close>. In any state, the first check of a
  key in a fresh or expired window is allowed and stores the count 1, whatever
  \<open>maxRequests\<close> is (also 0); and a check inside the window changes the stored count only
  when it is below \<open>maxRequests\<close>, and then by one.
\<close>

theorem rate_limit_count_bounded:
  "(requests (snd (RateLimiter_checks (RateLimiter_new m w) evs)) key = Some e
      \<longrightarrow> count e \<le> max m 1) \<and>
   (requests limiter k = None \<or> (\<exists>e0. requests limiter k = Some e0 \<and> RateLimitEntry.resetTime e0 < now)
      \<longrightarrow> allowed (fst (RateLimiter_check limiter k now)) \<and>
          map_option count (requests (snd (RateLimiter_check limiter k now)) k) = Some 1) \<and>
   (requests limiter k = Some e0 \<and> now \<le> RateLimitEntry.resetTime e0 \<and>
    requests (snd (RateLimiter_check limiter k now)) k = Some e1 \<and> count e1 \<noteq> count e0
      \<longrightarrow> count e0 < maxRequests limiter \<and> count e1 = count e0 + 1)"
proof (intro conjI impI)
  assume a: "requests (snd (RateLimiter_checks (RateLimiter_new m w) evs)) key = Some e"
  have "count_bounded (RateLimiter_new m w)"
    by (simp add: count_bounded_def RateLimiter_new_def)
  from checks_count_bounded [OF this, of evs] a
  have "count e \<le> max (maxRequests (snd (RateLimiter_checks (RateLimiter_new m w) evs))) 1"
    unfolding count_bounded_def by blast
  then show "count e \<le> max m 1"
    by (simp add: checks_maxRequests RateLimiter_new_def)
next
  assume "requests limiter k = None \<or> (\<exists>e0. requests limiter k = Some e0 \<and> RateLimitEntry.resetTime e0 < now)"
  from check_fresh [OF this]
  show "allowed (fst (RateLimiter_check limiter k now))"
    and "map_option count (requests (snd (RateLimiter_check limiter k now)) k) = Some 1"
    by simp_all
next
  assume a: "requests limiter k = Some e0 \<and> now \<le> RateLimitEntry.resetTime e0 \<and>
    requests (snd (RateLimiter_check limiter k now)) k = Some e1 \<and> count e1 \<noteq> count e0"
  then show "count e0 < maxRequests limiter" and "count e1 = count e0 + 1"
    by (auto simp: RateLimiter_check_def Let_def split: if_splits)
qed

theorem rate_limit_count_bounded_witness:
  "allowed (fst (RateLimiter_check (RateLimiter_new 0 60000) ''ip-1'' 1000)) \<and>
   map_option count (requests (snd (RateLimiter_check (RateLimiter_new 0 60000) ''ip-1'' 1000)) ''ip-1'')
     = Some 1 \<and>
   map allowed (fst (RateLimiter_checks (RateLimiter_new 0 60000)
      [(''ip-1'', 1000), (''ip-1'', 2000), (''ip-1'', 61001)])) = [True, False, True] \<and>
   count \<lparr>count = 1, RateLimitEntry.resetTime = 121001\<rparr> \<le> max 0 1"
proof -
  let ?evs = "[(''ip-1'', 1000), (''ip-1'', 2000), (''ip-1'', 61001)]"
  have n: "requests (RateLimiter_new 0 60000) ''ip-1'' = None"
    by (simp add: RateLimiter_new_def)
  have s: "requests (snd (RateLimiter_checks (RateLimiter_new 0 60000) ?evs)) ''ip-1''
      = Some \<lparr>count = 1, RateLimitEntry.resetTime = 121001\<rparr>"
    by (simp add: RateLimiter_new_def RateLimiter_check_def Let_def)
  have r: "map allowed (fst (RateLimiter_checks (RateLimiter_new 0 60000) ?evs)) = [True, False, True]"
    by (simp add: RateLimiter_new_def RateLimiter_check_def Let_def)
  show ?thesis
    using rate_limit_count_bounded [where m = 0 and w = 60000 and evs = ?evs
        and key = "''ip-1''" and e = "\<lparr>count = 1, RateLimitEntry.resetTime = 121001\<rparr>"
        and limiter = "RateLimiter_new 0 60000" and k = "''ip-1''" and now = 1000]
      n s r
    by simp
qed

lemma checks_in_window:
  "requests limiter key = Some e \<Longrightarrow> \<forall>t\<in>set ts. t \<le> RateLimitEntry.resetTime e \<Longrightarrow>
   count e + int (length ts) \<le> maxRequests limiter \<Longrightarrow>
   RateLimiter_checks limiter (map (Pair key) ts) = (rs, limiter') \<Longrightarrow>
   (\<forall>r\<in>set rs. allowed r) \<and> length rs = length ts \<and>
   requests limiter' key = Some (e\<lparr>count := count e + int (length ts)\<rparr>) \<and>
   maxRequests limiter' = maxRequests limiter \<and>
   RateLimiter.windowMs limiter' = RateLimiter.windowMs limiter"
proof (induction ts arbitrary: limiter e rs limiter')
  case Nil
  then show ?case by simp
next
  case (Cons t ts)
  have lt: "count e < maxRequests limiter" using Cons.prems(3) by simp
  have le: "t \<le> RateLimitEntry.resetTime e" using Cons.prems(2) by simp
  let ?l1 = "limiter\<lparr>requests := (requests limiter)(key \<mapsto> e\<lparr>count := count e + 1\<rparr>)\<rparr>"
  note c = check_counted [OF Cons.prems(1) le lt]
  obtain rs1 l2 where r: "RateLimiter_checks ?l1 (map (Pair key) ts) = (rs1, l2)"
    by (cases "RateLimiter_checks ?l1 (map (Pair key) ts)")
  have e1: "requests ?l1 key = Some (e\<lparr>count := count e + 1\<rparr>)" by simp
  have w1: "\<forall>t\<in>set ts. t \<le> RateLimitEntry.resetTime (e\<lparr>count := count e + 1\<rparr>)"
    using Cons.prems(2) by simp
  have b1: "count (e\<lparr>count := count e + 1\<rparr>) + int (length ts) \<le> maxRequests ?l1"
    using Cons.prems(3) by simp
  note ih = Cons.IH [OF e1 w1 b1 r]
  have "rs = \<lparr>allowed = True, remaining = maxRequests limiter - (count e + 1),
       resetTime = RateLimitEntry.resetTime e\<rparr> # rs1" and "limiter' = l2"
    using Cons.prems(4) c r by simp_all
  then show ?case using ih by (simp add: add.assoc)
qed

text \<open>
  C4, as amended. For every configuration with \<open>maxRequests \<ge> 1\<close> and every key: when a
  check at \<open>t0\<close> opens a window (no entry, or the entry's \<open>resetTime\<close> has passed) and is
  followed by \<open>maxRequests - 1\<close> more checks of the key no later than
  \<open>t0 + windowMs\<close>, all \<open>maxRequests\<close> checks are allowed, and the next check of the key
  no later than \<open>t0 + windowMs\<close> returns \<open>allowed = false\<close>, \<open>remaining = 0\<close> and the
  unchanged \<open>resetTime = t0 + windowMs\<close>, leaving the limiter as it was. In any state, a
  check of a key after its entry's \<open>resetTime\<close> returns \<open>allowed = true\<close>,
  \<open>remaining = maxRequests - 1\<close> and \<open>resetTime = now + windowMs\<close>.
\<close>

theorem rate_limit_window:
  assumes "1 \<le> maxRequests limiter"
    and "requests limiter key = None \<or>
         (\<exists>e. requests limiter key = Some e \<and> RateLimitEntry.resetTime e < t0)"
    and "int (length ts) = maxRequests limiter - 1"
    and "\<forall>t\<in>set ts. t \<le> t0 + RateLimiter.windowMs limiter"
    and "RateLimiter_checks limiter (map (Pair key) (t0 # ts)) = (rs, limiter')"
  shows "length rs = nat (maxRequests limiter) \<and> (\<forall>r\<in>set rs. allowed r) \<and>
         (t \<le> t0 + RateLimiter.windowMs limiter \<longrightarrow>
            RateLimiter_check limiter' key t =
              (\<lparr>allowed = False, remaining = 0, resetTime = t0 + RateLimiter.windowMs limiter\<rparr>,
               limiter')) \<and>
         (requests limiter2 key2 = Some e2 \<and> RateLimitEntry.resetTime e2 < now \<longrightarrow>
            fst (RateLimiter_check limiter2 key2 now) =
              \<lparr>allowed = True, remaining = maxRequests limiter2 - 1,
               resetTime = now + RateLimiter.windowMs limiter2\<rparr>)"
proof -
  let ?w = "RateLimiter.windowMs limiter"
  let ?e = "\<lparr>count = 1, RateLimitEntry.resetTime = t0 + ?w\<rparr>"
  let ?l1 = "limiter\<lparr>requests := (requests limiter)(key \<mapsto> ?e)\<rparr>"
  note c = check_fresh [OF assms(2)]
  obtain rs1 l2 where r: "RateLimiter_checks ?l1 (map (Pair key) ts) = (rs1, l2)"
    by (cases "RateLimiter_checks ?l1 (map (Pair key) ts)")
  have rs: "rs = \<lparr>allowed = True, remaining = maxRequests limiter - 1, resetTime = t0 + ?w\<rparr> # rs1"
    and l': "limiter' = l2"
    using assms(5) c r by simp_all
  have e1: "requests ?l1 key = Some ?e" by simp
  have w1: "\<forall>t\<in>set ts. t \<le> RateLimitEntry.resetTime ?e" using assms(4) by simp
  have b1: "count ?e + int (length ts) \<le> maxRequests ?l1" using assms(3) by simp
  note ih = checks_in_window [OF e1 w1 b1 r]
  have ent: "requests limiter' key = Some \<lparr>count = maxRequests limiter, RateLimitEntry.resetTime = t0 + ?w\<rparr>"
    using ih l' assms(3) by simp
  have mx: "maxRequests limiter' = maxRequests limiter" using ih l' by simp
  have p1: "length rs = nat (maxRequests limiter)" using rs ih assms(1,3) by simp
  have p2: "\<forall>r\<in>set rs. allowed r" using rs ih by simp
  have p3: "t \<le> t0 + ?w \<longrightarrow> RateLimiter_check limiter' key t =
              (\<lparr>allowed = False, remaining = 0, resetTime = t0 + ?w\<rparr>, limiter')"
  proof
    assume "t \<le> t0 + ?w"
    then show "RateLimiter_check limiter' key t =
              (\<lparr>allowed = False, remaining = 0, resetTime = t0 + ?w\<rparr>, limiter')"
      using check_denied [OF ent, of t] mx by simp
  qed
  have p4: "requests limiter2 key2 = Some e2 \<and> RateLimitEntry.resetTime e2 < now \<longrightarrow>
            fst (RateLimiter_check limiter2 key2 now) =
              \<lparr>allowed = True, remaining = maxRequests limiter2 - 1,
               resetTime = now + RateLimiter.windowMs limiter2\<rparr>"
    using check_fresh [of limiter2 key2 now] by auto
  show ?thesis using p1 p2 p3 p4 by blast
qed

theorem rate_limit_window_witness:
  "RateLimiter_check
     (snd (RateLimiter_checks (RateLimiter_new 2 60000) [(''ip-1'', 1000), (''ip-1'', 2000)]))
     ''ip-1'' 61000 =
     (\<lparr>allowed = False, remaining = 0, resetTime = 61000\<rparr>,
      snd (RateLimiter_checks (RateLimiter_new 2 60000) [(''ip-1'', 1000), (''ip-1'', 2000)])) \<and>
   fst (RateLimiter_check
     (snd (RateLimiter_checks (RateLimiter_new 2 60000) [(''ip-1'', 1000), (''ip-1'', 2000)]))
     ''ip-1'' 61001) = \<lparr>allowed = True, remaining = 1, resetTime = 121001\<rparr>"
proof -
  let ?l = "RateLimiter_new 2 60000"
  let ?l' = "snd (RateLimiter_checks ?l [(''ip-1'', 1000), (''ip-1'', 2000)])"
  have a1: "1 \<le> maxRequests ?l" by (simp add: RateLimiter_new_def)
  have a2: "requests ?l ''ip-1'' = None \<or>
         (\<exists>e. requests ?l ''ip-1'' = Some e \<and> RateLimitEntry.resetTime e < 1000)"
    by (simp add: RateLimiter_new_def)
  have a3: "int (length [2000::int]) = maxRequests ?l - 1" by (simp add: RateLimiter_new_def)
  have a4: "\<forall>t\<in>set [2000::int]. t \<le> 1000 + RateLimiter.windowMs ?l"
    by (simp add: RateLimiter_new_def)
  have a5: "RateLimiter_checks ?l (map (Pair ''ip-1'') (1000 # [2000])) =
      (fst (RateLimiter_checks ?l [(''ip-1'', 1000), (''ip-1'', 2000)]), ?l')"
    by simp
  have e: "requests ?l' ''ip-1'' = Some \<lparr>count = 2, RateLimitEntry.resetTime = 61000\<rparr>"
    by (simp add: RateLimiter_new_def RateLimiter_check_def Let_def)
  have m: "maxRequests ?l' = 2" "RateLimiter.windowMs ?l' = 60000"
    by (simp_all add: RateLimiter_new_def RateLimiter_check_def Let_def)
  show ?thesis
    using rate_limit_window [OF a1 a2 a3 a4 a5, of 61000 ?l' "''ip-1''"
        "\<lparr>count = 2, RateLimitEntry.resetTime = 61000\<rparr>" 61001] e m
    by (simp add: RateLimiter_new_def)
qed

text \<open>
  C4 as stated fails for \<open>maxRequests = 0\<close>: on a new limiter no check has been allowed
  yet, and the next check, the first, is allowed (with \<open>remaining = -1\<close>).
\<close>

theorem rate_limit_zero_allows_first:
  "maxRequests (RateLimiter_new 0 60000) = 0 \<and>
   RateLimiter_checks (RateLimiter_new 0 60000) [] = ([], RateLimiter_new 0 60000) \<and>
   fst (RateLimiter_check (RateLimiter_new 0 60000) ''ip-1'' 1000) =
     \<lparr>allowed = True, remaining = - 1, resetTime = 61000\<rparr>"
  by (simp add: RateLimiter_new_def RateLimiter_check_def Let_def)

section \<open>Idempotency cache: proofs\<close>

text \<open>
  C5. For every cache, key \<open>k\<close> and response \<open>v\<close>: \<open>get(k)\<close> at \<open>t\<close> milliseconds after
  \<open>set(k, v)\<close> returns \<open>v\<close> if and only if \<open>t \<le> TTL\<close>. When \<open>t \<le> TTL\<close> the cache is left
  as it was; otherwise the result is \<open>undefined\<close> and the entry of \<open>k\<close> has been deleted.
\<close>

theorem idempotency_get_after_set:
  "(fst (IdempotencyCache_get (IdempotencyCache_set c key v t0) key (t0 + t)) = Some v
      \<longleftrightarrow> t \<le> ttl c) \<and>
   (t \<le> ttl c \<longrightarrow>
      IdempotencyCache_get (IdempotencyCache_set c key v t0) key (t0 + t) =
        (Some v, IdempotencyCache_set c key v t0)) \<and>
   (ttl c < t \<longrightarrow>
      fst (IdempotencyCache_get (IdempotencyCache_set c key v t0) key (t0 + t)) = None \<and>
      cache (snd (IdempotencyCache_get (IdempotencyCache_set c key v t0) key (t0 + t))) key = None)"
  by (simp add: IdempotencyCache_get_def IdempotencyCache_set_def)

theorem idempotency_get_after_set_witness:
  "IdempotencyCache_get (IdempotencyCache_set (IdempotencyCache_new 1000) ''key-1'' ''r1'' 5000)
      ''key-1'' 6000 =
     (Some ''r1'', IdempotencyCache_set (IdempotencyCache_new 1000) ''key-1'' ''r1'' 5000) \<and>
   fst (IdempotencyCache_get (IdempotencyCache_set (IdempotencyCache_new 1000) ''key-1'' ''r1'' 5000)
      ''key-1'' 6001) = None \<and>
   cache (snd (IdempotencyCache_get
      (IdempotencyCache_set (IdempotencyCache_new 1000) ''key-1'' ''r1'' 5000) ''key-1'' 6001))
      ''key-1'' = None"
proof -
  have t: "ttl (IdempotencyCache_new 1000 :: string IdempotencyCache) = 1000"
    by (simp add: IdempotencyCache_new_def)
  show ?thesis
    using idempotency_get_after_set [of "IdempotencyCache_new 1000" "''key-1''" "''r1''" 5000 1000]
      idempotency_get_after_set [of "IdempotencyCache_new 1000" "''key-1''" "''r1''" 5000 1001]
    by (simp add: t)
qed

section \<open>Anthropic adapter: proofs\<close>

lemma find_no_system: "\<forall>x\<in>set ms. role x \<noteq> System \<Longrightarrow> find (\<lambda>m. role m = System) ms = None"
  by (induction ms) auto

lemma find_first_system:
  "\<forall>x\<in>set pre. role x \<noteq> System \<Longrightarrow> role m = System \<Longrightarrow>
   find (\<lambda>m. role m = System) (pre @ m # post) = Some m"
  by (induction pre) auto

lemma filter_no_system: "\<forall>x\<in>set ms. role x \<noteq> System \<Longrightarrow> filter (\<lambda>m. role m \<noteq> System) ms = ms"
  by (induction ms) auto

text \<open>
  C8, as amended. For every request given to the Anthropic adapter: without a
  \<open>role = system\<close> message there is no system directive and the messages are forwarded
  unchanged; otherwise the content of the first \<open>role = system\<close> message is the system
  directive, and the messages before it followed by the non-system messages after it are
  forwarded in their order (so all remaining messages, when it is the only system
  message). \<open>max_tokens\<close> is the request's \<open>maxTokens\<close>, or 4096 when that is unset.
\<close>

theorem anthropic_request_shape:
  "((\<forall>x\<in>set (messages request). role x \<noteq> System) \<longrightarrow>
      system (anthropic_request request) = None \<and>
      create_messages (anthropic_request request) = messages request) \<and>
   (messages request = pre @ m # post \<and> role m = System \<and> (\<forall>x\<in>set pre. role x \<noteq> System) \<longrightarrow>
      system (anthropic_request request) = Some (content m) \<and>
      create_messages (anthropic_request request) = pre @ filter (\<lambda>x. role x \<noteq> System) post \<and>
      ((\<forall>x\<in>set post. role x \<noteq> System) \<longrightarrow>
         create_messages (anthropic_request request) = pre @ post)) \<and>
   max_tokens (anthropic_request request) =
     (case maxTokens request of None \<Rightarrow> 4096 | Some n \<Rightarrow> n)"
  by (auto simp: anthropic_request_def Let_def find_no_system find_first_system filter_no_system)

theorem anthropic_request_shape_witness:
  "system (anthropic_request two_system_request) = Some ''Be brief.'' \<and>
   create_messages (anthropic_request two_system_request) =
     [\<lparr>role = User, content = ''Hello''\<rparr>, \<lparr>role = Assistant, content = ''Bonjour''\<rparr>] \<and>
   max_tokens (anthropic_request two_system_request) = 4096 \<and>
   system (anthropic_request plain_request) = None \<and>
   create_messages (anthropic_request plain_request) = [\<lparr>role = User, content = ''test''\<rparr>] \<and>
   max_tokens (anthropic_request plain_request) = 16"
proof -
  have d: "messages two_system_request =
      [] @ \<lparr>role = System, content = ''Be brief.''\<rparr> #
        [\<lparr>role = User, content = ''Hello''\<rparr>,
         \<lparr>role = System, content = ''Answer in French.''\<rparr>,
         \<lparr>role = Assistant, content = ''Bonjour''\<rparr>]"
    by (simp add: two_system_request_def)
  have n: "\<forall>x\<in>set (messages plain_request). role x \<noteq> System"
    by (simp add: plain_request_def)
  show ?thesis
    using anthropic_request_shape [of two_system_request "[]" "\<lparr>role = System, content = ''Be brief.''\<rparr>"
        "[\<lparr>role = User, content = ''Hello''\<rparr>,
         \<lparr>role = System, content = ''Answer in French.''\<rparr>,
         \<lparr>role = Assistant, content = ''Bonjour''\<rparr>]"]
      anthropic_request_shape [of plain_request] d n
    by (simp add: two_system_request_def plain_request_def)
qed

text \<open>
  C8 as stated fails for a request with two system messages: the first is lifted out, and
  the second is among the remaining messages but is not forwarded.
\<close>

theorem anthropic_drops_later_system_messages:
  "find (\<lambda>m. role m = System) (messages two_system_request) =
     Some \<lparr>role = System, content = ''Be brief.''\<rparr> \<and>
   remove1 \<lparr>role = System, content = ''Be brief.''\<rparr> (messages two_system_request) =
     [\<lparr>role = User, content = ''Hello''\<rparr>,
      \<lparr>role = System, content = ''Answer in French.''\<rparr>,
      \<lparr>role = Assistant, content = ''Bonjour''\<rparr>] \<and>
   create_messages (anthropic_request two_system_request) =
     [\<lparr>role = User, content = ''Hello''\<rparr>, \<lparr>role = Assistant, content = ''Bonjour''\<rparr>] \<and>
   system (anthropic_request two_system_request) = Some ''Be brief.''"
  by (simp add: two_system_request_def anthropic_request_def Let_def)

section \<open>Orchestrator: proofs\<close>

lemma retry_resolves_at_once:
  "1 \<le> maxAttempts options \<Longrightarrow> fn s = (Inr v, s') \<Longrightarrow>
   retryWithBackoff fn options s = ([Invoke], Resolved v, s')"
  by (simp add: retryWithBackoff_def retry_loop_resolve)

text \<open>
  C1 on the code. When the breaker-protected call resolves with a failed
  \<open>ProviderResult\<close>, the retry driver sees a fulfilled promise: \<open>chat\<close> makes exactly one
  call, never sleeps, and rejects with the result's error. This is so whether
  \<open>retryable\<close> is true or false; a retryable failure is not retried.
\<close>

theorem chat_gives_up_on_failed_result:
  assumes "providers svc (case providerName of Some n \<Rightarrow> n | None \<Rightarrow> defaultProvider svc)
             = Some provider"
    and "circuitBreakers svc (name provider) = Some breaker"
    and "breaker request s = (Inr (Failure e retryable), s')"
  shows "LLMService_chat svc request providerName s = ([Invoke], Rejected (Some e), s')"
proof -
  have "retryWithBackoff (breaker request)
          \<lparr>maxAttempts = 3, initialDelay = 100, maxDelay = 5000, factor = 2\<rparr> s =
        ([Invoke], Resolved (Failure e retryable), s')"
    using assms(3) by (intro retry_resolves_at_once) simp_all
  then show ?thesis using assms(1,2) by (simp add: LLMService_chat_def Let_def)
qed

theorem chat_gives_up_on_failed_result_witness:
  "LLMService_chat unavailable_service plain_request None 0 =
     ([Invoke], Rejected (Some (Error ''503 Service Unavailable'')), 1)"
proof -
  have a: "providers unavailable_service
      (case None of Some n \<Rightarrow> n | None \<Rightarrow> defaultProvider unavailable_service)
      = Some unavailable_provider"
    by (simp add: unavailable_service_def LLMService_new_def unavailable_provider_def)
  have b: "circuitBreakers unavailable_service (name unavailable_provider) =
      Some (passing_breaker unavailable_provider)"
    by (simp add: unavailable_service_def LLMService_new_def unavailable_provider_def)
  have c: "passing_breaker unavailable_provider plain_request 0 =
      (Inr (Failure (Error ''503 Service Unavailable'') True), 1)"
    by (simp add: passing_breaker_def unavailable_provider_def)
  show ?thesis using chat_gives_up_on_failed_result [OF a b c] .
qed

section \<open>Request coalescer: proofs\<close>

text \<open>
  C2 on the code. With a window of 100 ms: a call at 0 ms starts promise 0; the entry is
  stale at 150 ms, so the call at 150 ms starts promise 1 and the call at 160 ms joins it.
  When promise 0 settles, its \<open>finally\<close> callback deletes the entry of promise 1, and the
  call at 180 ms, 30 ms after the one at 150 ms and while promise 1 is still in flight,
  starts promise 2. The three callers at 150, 160 and 180 ms hold the promises 1, 1 and 2,
  and \<open>fn\<close> has been called three times.
\<close>

theorem coalescer_stale_settle_splits_window:
  "fst (run (\<lambda>k. k) (RequestCoalescer_new 100) stale_settle_events) =
     [(''k'', 0), (''k'', 1), (''k'', 1), (''k'', 2)] \<and>
   fn_calls (snd (run (\<lambda>k. k) (RequestCoalescer_new 100) stale_settle_events)) ''k'' = 3 \<and>
   observed (snd (run (\<lambda>k. k) (RequestCoalescer_new 100) stale_settle_events)) 1 = None \<and>
   observed (snd (run (\<lambda>k. k) (RequestCoalescer_new 100) stale_settle_events)) 2 = None"
  by (simp add: stale_settle_events_def RequestCoalescer_new_def RequestCoalescer_execute_def
      settle_def Let_def fn_calls_def observed_def)

text \<open>
  What does hold: when no promise of the key is in flight as the first caller arrives,
  every caller of the burst is handed the first caller's promise, \<open>fn\<close> is called once
  for the key, and when that promise settles the entry of the key is removed and every
  holder observes the same outcome.
\<close>

lemma fn_calls_settle: "fn_calls (settle w p out) ks = fn_calls w ks"
proof -
  have "map keyStr ((promises w)[p := (promises w ! p)\<lparr>outcome := Some out\<rparr>]) = map keyStr (promises w)"
    by (cases "p < length (promises w)") (simp_all add: map_update list_update_same_conv list_update_beyond)
  then have "filter (\<lambda>k. k = ks) (map keyStr ((promises w)[p := (promises w ! p)\<lparr>outcome := Some out\<rparr>]))
      = filter (\<lambda>k. k = ks) (map keyStr (promises w))" by simp
  then have "length (filter ((\<lambda>k. k = ks) \<circ> keyStr) ((promises w)[p := (promises w ! p)\<lparr>outcome := Some out\<rparr>]))
      = length (filter ((\<lambda>k. k = ks) \<circ> keyStr) (promises w))"
    by (metis filter_map length_map)
  then show ?thesis by (simp add: fn_calls_def settle_def comp_def)
qed

lemma window_settle: "RequestCoalescer.windowMs (coalescer (settle w p out)) = RequestCoalescer.windowMs (coalescer w)"
  by (simp add: settle_def)

lemma window_execute:
  "RequestCoalescer.windowMs (coalescer (snd (RequestCoalescer_execute js w key n1 n2))) =
   RequestCoalescer.windowMs (coalescer w)"
  by (simp add: RequestCoalescer_execute_def Let_def split: option.splits)

lemma shared_settle:
  assumes "shared w ks p0 t0" and "p \<noteq> p0"
  shows "shared (settle w p out) ks p0 t0"
proof (cases "p < length (promises w) \<and> outcome (promises w ! p) = None")
  case False
  then have "settle w p out = w" by (auto simp: settle_def)
  then show ?thesis using assms(1) by simp
next
  case True
  then have "keyStr (promises w ! p) \<noteq> ks"
    using assms unfolding shared_def by blast
  then show ?thesis
    using assms True unfolding shared_def
    by (auto simp: settle_def nth_list_update)
qed

lemma shared_execute_same:
  assumes "shared w ks p0 t0" and "serializeKey js key = ks"
    and "n1 - t0 < RequestCoalescer.windowMs (coalescer w)"
  shows "RequestCoalescer_execute js w key n1 n2 = (p0, w)"
  using assms unfolding shared_def
  by (simp add: RequestCoalescer_execute_def Let_def)

lemma shared_execute_other:
  assumes "shared w ks p0 t0" and "serializeKey js key \<noteq> ks"
  shows "shared (snd (RequestCoalescer_execute js w key n1 n2)) ks p0 t0 \<and>
         fn_calls (snd (RequestCoalescer_execute js w key n1 n2)) ks = fn_calls w ks"
  using assms unfolding shared_def
  by (auto simp: RequestCoalescer_execute_def Let_def fn_calls_def nth_append split: option.splits)

lemma shared_run:
  assumes "shared w ks p0 t0"
    and "\<forall>ev\<in>set evs. in_burst js ks t0 (RequestCoalescer.windowMs (coalescer w)) p0 ev"
  shows "(\<forall>(k, p)\<in>set (fst (run js w evs)). k = ks \<longrightarrow> p = p0) \<and>
         shared (snd (run js w evs)) ks p0 t0 \<and>
         fn_calls (snd (run js w evs)) ks = fn_calls w ks"
  using assms
proof (induction evs arbitrary: w)
  case Nil
  then show ?case by simp
next
  case (Cons ev evs)
  show ?case
  proof (cases ev)
    case (Settle p out)
    with Cons.prems(2) have ne: "p \<noteq> p0" by (simp add: in_burst_def)
    have sh: "shared (settle w p out) ks p0 t0" using shared_settle [OF Cons.prems(1) ne] .
    have b: "\<forall>ev\<in>set evs. in_burst js ks t0 (RequestCoalescer.windowMs (coalescer (settle w p out))) p0 ev"
      using Cons.prems(2) by (simp add: window_settle)
    from Cons.IH [OF sh b] show ?thesis by (simp add: Settle fn_calls_settle)
  next
    case (Execute key n1 n2)
    show ?thesis
    proof (cases "serializeKey js key = ks")
      case True
      with Cons.prems(2) Execute have "n1 - t0 < RequestCoalescer.windowMs (coalescer w)"
        by (simp add: in_burst_def)
      from shared_execute_same [OF Cons.prems(1) True this]
      have e: "RequestCoalescer_execute js w key n1 n2 = (p0, w)" .
      have b: "\<forall>ev\<in>set evs. in_burst js ks t0 (RequestCoalescer.windowMs (coalescer w)) p0 ev"
        using Cons.prems(2) by simp
      obtain rets w' where r: "run js w evs = (rets, w')" by (cases "run js w evs")
      from Cons.IH [OF Cons.prems(1) b] r show ?thesis
        by (simp add: Execute e True)
    next
      case False
      obtain p1 w1 where e: "RequestCoalescer_execute js w key n1 n2 = (p1, w1)"
        by (cases "RequestCoalescer_execute js w key n1 n2")
      from shared_execute_other [OF Cons.prems(1) False, of n1 n2] e
      have sh: "shared w1 ks p0 t0" and c: "fn_calls w1 ks = fn_calls w ks" by simp_all
      have "RequestCoalescer.windowMs (coalescer w1) = RequestCoalescer.windowMs (coalescer w)"
        using window_execute [of js w key n1 n2] e by simp
      then have b: "\<forall>ev\<in>set evs. in_burst js ks t0 (RequestCoalescer.windowMs (coalescer w1)) p0 ev"
        using Cons.prems(2) by simp
      obtain rets w' where r: "run js w1 evs = (rets, w')" by (cases "run js w1 evs")
      from Cons.IH [OF sh b] r c False show ?thesis
        by (simp add: Execute e)
    qed
  qed
qed

lemma execute_first:
  assumes "pending (coalescer w) ks = None"
    and "\<forall>p<length (promises w). keyStr (promises w ! p) = ks \<longrightarrow> outcome (promises w ! p) \<noteq> None"
    and "serializeKey js key = ks"
  shows "fst (RequestCoalescer_execute js w key n1 t0) = length (promises w) \<and>
         shared (snd (RequestCoalescer_execute js w key n1 t0)) ks (length (promises w)) t0 \<and>
         fn_calls (snd (RequestCoalescer_execute js w key n1 t0)) ks = Suc (fn_calls w ks)"
  using assms unfolding shared_def
  by (auto simp: RequestCoalescer_execute_def Let_def fn_calls_def nth_append)

lemma shared_then_settle:
  assumes "shared w ks p0 t0"
  shows "pending (coalescer (settle w p0 out)) ks = None \<and> observed (settle w p0 out) p0 = Some out"
  using assms unfolding shared_def by (simp add: settle_def observed_def)

lemma coalescer_shares_one_call:
  assumes "pending (coalescer w) ks = None"
    and "\<forall>p<length (promises w). keyStr (promises w ! p) = ks \<longrightarrow> outcome (promises w ! p) \<noteq> None"
    and "serializeKey js key = ks"
    and "RequestCoalescer_execute js w key n1 t0 = (p0, w1)"
    and "\<forall>ev\<in>set evs. in_burst js ks t0 (RequestCoalescer.windowMs (coalescer w)) p0 ev"
    and "run js w1 evs = (rets, w2)"
  shows "(\<forall>(k, p)\<in>set rets. k = ks \<longrightarrow> p = p0) \<and>
         fn_calls w2 ks = Suc (fn_calls w ks) \<and>
         observed w2 p0 = None \<and>
         pending (coalescer (settle w2 p0 out)) ks = None \<and>
         observed (settle w2 p0 out) p0 = Some out \<and>
         fn_calls (settle w2 p0 out) ks = Suc (fn_calls w ks)"
proof -
  from execute_first [OF assms(1-3), of n1 t0] assms(4)
  have p0: "p0 = length (promises w)" and sh: "shared w1 ks p0 t0"
    and c1: "fn_calls w1 ks = Suc (fn_calls w ks)" by simp_all
  have win: "RequestCoalescer.windowMs (coalescer w1) = RequestCoalescer.windowMs (coalescer w)"
    using window_execute [of js w key n1 t0] assms(4) by simp
  have b: "\<forall>ev\<in>set evs. in_burst js ks t0 (RequestCoalescer.windowMs (coalescer w1)) p0 ev"
    using assms(5) win by simp
  from shared_run [OF sh b] assms(6)
  have r: "\<forall>(k, p)\<in>set rets. k = ks \<longrightarrow> p = p0" and sh2: "shared w2 ks p0 t0"
    and c2: "fn_calls w2 ks = fn_calls w1 ks" by simp_all
  have o: "observed w2 p0 = None" using sh2 by (simp add: shared_def observed_def)
  show ?thesis using r c1 c2 o shared_then_settle [OF sh2, of out] by (simp add: fn_calls_settle)
qed

end
